theory Spec2Isabelle
  imports Main "HOL-Library.Word"
begin

section \<open>The ephemeral store (internal/server/store.go)\<close>

text \<open>
  Go values are modelled as follows.
  \<^item> A \<^verbatim>\<open>[]byte\<close> is a \<open>byte list option\<close>: \<open>None\<close> is the nil slice, \<open>Some bs\<close> a
    non-nil slice (possibly empty). The store compares blobs with nil, so the difference
    is kept.
  \<^item> A \<^verbatim>\<open>string\<close> is a \<open>string\<close>: a list of 8-bit characters, as a Go string is a
    sequence of bytes.
  \<^item> A \<^verbatim>\<open>time.Time\<close> is an \<open>int\<close>: nanoseconds since the epoch. The store only
    compares instants, with \<^verbatim>\<open>After\<close>.
  \<^item> The view counter is a Go \<^verbatim>\<open>int\<close>, modelled as \<open>int\<close>: the only arithmetic on it
    is the decrement in \<^verbatim>\<open>GetWithReason\<close>, which runs on a positive counter only, so it
    never wraps around.
  \<^item> Every method locks the store's mutex for its whole body; a method is one
    atomic transition of the map, and the clock reading \<^verbatim>\<open>time.Now()\<close> is an argument.
\<close>

type_synonym byte = "8 word"
type_synonym bytes = "byte list option"
type_synonym time = int

datatype NotFoundReason = ReasonNotFound | ReasonExpired | ReasonMaxViews

text \<open>The integers the constants stand for, numbered by \<^verbatim>\<open>iota\<close>.\<close>

fun reason_value :: "NotFoundReason \<Rightarrow> int" where
  "reason_value ReasonNotFound = 0"
| "reason_value ReasonExpired = 1"
| "reason_value ReasonMaxViews = 2"

record storedSecret =
  Blob :: bytes
  ViewsRemaining :: int
  Expiry :: time
  MaxViews :: int

record Store =
  secrets :: "string \<rightharpoonup> storedSecret"

definition NewStore :: Store where
  "NewStore = \<lparr>secrets = Map.empty\<rparr>"

text \<open>\<^verbatim>\<open>t.After(u)\<close>: the instant t is strictly later than u.\<close>

definition After :: "time \<Rightarrow> time \<Rightarrow> bool" where
  "After t u = (u < t)"

text \<open>\<^verbatim>\<open>delete(s.secrets, id)\<close>.\<close>

definition delete_key :: "Store \<Rightarrow> string \<Rightarrow> Store" where
  "delete_key s key = s\<lparr>secrets := (secrets s)(key := None)\<rparr>"

definition Put :: "Store \<Rightarrow> string \<Rightarrow> bytes \<Rightarrow> int \<Rightarrow> time \<Rightarrow> Store" where
  "Put s key blob maxViews expiry =
     s\<lparr>secrets := (secrets s)(key \<mapsto>
         \<lparr>Blob = blob, ViewsRemaining = maxViews, Expiry = expiry, MaxViews = maxViews\<rparr>)\<rparr>"

text \<open>
  \<^verbatim>\<open>GetWithReason\<close> returns the blob and the reason, and the store after the call. The
  entry is reached through a pointer, so the decrement is written back to the map unless
  the entry is deleted.
\<close>

definition GetWithReason :: "Store \<Rightarrow> time \<Rightarrow> string \<Rightarrow> (bytes \<times> NotFoundReason) \<times> Store" where
  "GetWithReason s now key =
     (case secrets s key of
        None \<Rightarrow> ((None, ReasonNotFound), s)
      | Some sec \<Rightarrow>
          if After now (Expiry sec) then ((None, ReasonExpired), delete_key s key)
          else if ViewsRemaining sec \<le> 0 then ((None, ReasonMaxViews), delete_key s key)
          else
            let blob = Blob sec;
                sec' = sec\<lparr>ViewsRemaining := ViewsRemaining sec - 1\<rparr>
            in if ViewsRemaining sec' \<le> 0
               then ((blob, ReasonNotFound), delete_key s key)
               else ((blob, ReasonNotFound), s\<lparr>secrets := (secrets s)(key \<mapsto> sec')\<rparr>))"

definition Get :: "Store \<Rightarrow> time \<Rightarrow> string \<Rightarrow> (bytes \<times> bool) \<times> Store" where
  "Get s now key =
     (case GetWithReason s now key of
        ((blob, _), s') \<Rightarrow> ((blob, blob \<noteq> None), s'))"

definition Delete :: "Store \<Rightarrow> string \<Rightarrow> bool \<times> Store" where
  "Delete s key = (secrets s key \<noteq> None, delete_key s key)"

text \<open>
  \<^verbatim>\<open>expireOld\<close> ranges over the map and deletes the entries the clock reading is after.
  Go visits the keys in an unspecified order; \<open>expireOld_loop\<close> is the loop over the keys
  in the order of its list argument, and \<open>expireOld\<close> its result, which
  \<open>expireOld_loop_eq\<close> below shows not to depend on the order.
\<close>

fun expireOld_loop :: "time \<Rightarrow> string list \<Rightarrow> Store \<Rightarrow> Store" where
  "expireOld_loop now [] s = s"
| "expireOld_loop now (key # keys) s =
     (case secrets s key of
        None \<Rightarrow> expireOld_loop now keys s
      | Some sec \<Rightarrow>
          if After now (Expiry sec) then expireOld_loop now keys (delete_key s key)
          else expireOld_loop now keys s)"

definition expireOld :: "Store \<Rightarrow> time \<Rightarrow> Store" where
  "expireOld s now =
     s\<lparr>secrets := (\<lambda>key. case secrets s key of
                            None \<Rightarrow> None
                          | Some sec \<Rightarrow> if After now (Expiry sec) then None else Some sec)\<rparr>"

subsection \<open>Sequences of store operations\<close>

text \<open>
  One operation of the store, run at a clock reading: \<open>OpSweep\<close> is one tick of
  \<^verbatim>\<open>cleanupLoop\<close>, which calls \<^verbatim>\<open>expireOld\<close>.
\<close>

datatype op = OpPut string bytes int time | OpGet string | OpDelete string | OpSweep

fun step :: "Store \<Rightarrow> time \<times> op \<Rightarrow> Store" where
  "step s (now, OpPut key blob maxViews expiry) = Put s key blob maxViews expiry"
| "step s (now, OpGet key) = snd (GetWithReason s now key)"
| "step s (now, OpDelete key) = snd (Delete s key)"
| "step s (now, OpSweep) = expireOld s now"

definition run_ops :: "Store \<Rightarrow> (time \<times> op) list \<Rightarrow> Store" where
  "run_ops s evs = foldl step s evs"

text \<open>The operation is no \<^verbatim>\<open>Put\<close> with a view count below one.\<close>

fun put_positive :: "time \<times> op \<Rightarrow> bool" where
  "put_positive (now, OpPut key blob maxViews expiry) = (1 \<le> maxViews)"
| "put_positive (now, OpGet key) = True"
| "put_positive (now, OpDelete key) = True"
| "put_positive (now, OpSweep) = True"

text \<open>The operation is no \<^verbatim>\<open>Put\<close> on the key.\<close>

fun no_put :: "string \<Rightarrow> time \<times> op \<Rightarrow> bool" where
  "no_put key (now, OpPut key' blob maxViews expiry) = (key' \<noteq> key)"
| "no_put key (now, OpGet key') = True"
| "no_put key (now, OpDelete key') = True"
| "no_put key (now, OpSweep) = True"

subsection \<open>Concurrent callers\<close>

text \<open>
  Every method of the store takes the write lock \<^verbatim>\<open>s.mu.Lock()\<close> first and releases it on
  return, and reads the clock inside. Calls from concurrent goroutines therefore take
  effect one after the other, in the order in which they get the lock: a concurrent
  execution is a list of operations, in that order. \<open>get_results key s evs\<close> lists what
  the calls \<^verbatim>\<open>GetWithReason(key)\<close> among \<open>evs\<close> return, when \<open>evs\<close> runs on the store \<open>s\<close>.
\<close>

fun get_results :: "string \<Rightarrow> Store \<Rightarrow> (time \<times> op) list \<Rightarrow> (bytes \<times> NotFoundReason) list" where
  "get_results key s [] = []"
| "get_results key s ((now, OpGet k) # evs) =
     (if k = key then [fst (GetWithReason s now k)] else [])
     @ get_results key (step s (now, OpGet k)) evs"
| "get_results key s ((now, OpPut k blob maxViews expiry) # evs) =
     get_results key (step s (now, OpPut k blob maxViews expiry)) evs"
| "get_results key s ((now, OpDelete k) # evs) = get_results key (step s (now, OpDelete k)) evs"
| "get_results key s ((now, OpSweep) # evs) = get_results key (step s (now, OpSweep)) evs"

text \<open>A call received the blob.\<close>

definition received :: "bytes \<times> NotFoundReason \<Rightarrow> bool" where
  "received r = (fst r \<noteq> None)"

text \<open>
  The operation leaves an entry of the key with the given expiry alone until the key is
  retrieved: it is no \<^verbatim>\<open>Put\<close> and no \<^verbatim>\<open>Delete\<close> of the key, and if it is a retrieval of
  the key or a sweep, its clock reading is not after the expiry.
\<close>

fun undisturbed :: "string \<Rightarrow> time \<Rightarrow> time \<times> op \<Rightarrow> bool" where
  "undisturbed key expiry (now, OpPut k blob maxViews e) = (k \<noteq> key)"
| "undisturbed key expiry (now, OpDelete k) = (k \<noteq> key)"
| "undisturbed key expiry (now, OpGet k) = (k = key \<longrightarrow> now \<le> expiry)"
| "undisturbed key expiry (now, OpSweep) = (now \<le> expiry)"

text \<open>
  The executions of the examples: three callers, two callers after a delete, two
  callers after the expiry, two callers, and two callers around a second \<^verbatim>\<open>Put\<close>.
\<close>

definition callers1 :: "(time \<times> op) list" where
  "callers1 = [(0, OpGet ''k1''), (1, OpPut ''k2'' None 1 60), (2, OpGet ''k1''), (3, OpGet ''k1'')]"

definition callers2 :: "(time \<times> op) list" where
  "callers2 = [(0, OpDelete ''k1''), (1, OpGet ''k1''), (2, OpGet ''k1'')]"

definition callers3 :: "(time \<times> op) list" where
  "callers3 = [(61, OpGet ''k1''), (62, OpGet ''k1'')]"

definition callers4 :: "(time \<times> op) list" where
  "callers4 = [(0, OpGet ''k1''), (1, OpGet ''k1'')]"

definition callers5 :: "(time \<times> op) list" where
  "callers5 = [(0, OpGet ''k1''), (1, OpPut ''k1'' (Some [0x62]) 1 60), (2, OpGet ''k1'')]"

subsection \<open>The retrieval algorithm as the specification words it\<close>





text \<open>The store of the examples: one secret of three bytes under the key k1.\<close>

definition blob1 :: bytes where
  "blob1 = Some [0x62, 0x6C, 0x6F]"

definition store1 :: "int \<Rightarrow> time \<Rightarrow> Store" where
  "store1 maxViews expiry = Put NewStore ''k1'' blob1 maxViews expiry"

section \<open>The admission policy (internal/server/handlers.go)\<close>

text \<open>
  The create request after JSON decoding. \<^verbatim>\<open>Expiry\<close> is an \<^verbatim>\<open>int64\<close>, a \<open>64 word\<close> read
  as two's complement, since \<^verbatim>\<open>validateRequest\<close> subtracts on it. \<^verbatim>\<open>MaxViews\<close> is a Go
  \<^verbatim>\<open>int\<close> that is only compared, an \<open>int\<close> here. The fields of the request carry the
  prefix \<open>req_\<close>, the store's entry having an \<^verbatim>\<open>Expiry\<close> and a \<^verbatim>\<open>MaxViews\<close> of its own.
\<close>

record KDFParams =
  Algorithm :: string
  Time :: "32 word"
  Memory :: "32 word"
  Threads :: "8 word"

record dropCreateRequest =
  req_Ciphertext :: string
  req_Salt :: string
  req_IV :: string
  req_KDF :: KDFParams
  req_Expiry :: "64 word"
  req_MaxViews :: int

definition MaxRequestBodyBytes :: nat where "MaxRequestBodyBytes = 2 * 1024 * 1024"
definition MaxCiphertextLen :: nat where "MaxCiphertextLen = 2 * 1024 * 1024"
definition MaxSaltLen :: nat where "MaxSaltLen = 64"
definition MaxIVLen :: nat where "MaxIVLen = 64"
definition MinExpirySeconds :: "64 word" where "MinExpirySeconds = 60"
definition MaxExpirySeconds :: "64 word" where "MaxExpirySeconds = 24 * 60 * 60"
definition MinMaxViews :: int where "MinMaxViews = 1"
definition MaxMaxViews :: int where "MaxMaxViews = 100"

text \<open>The status codes of \<^verbatim>\<open>net/http\<close> the handlers use.\<close>

definition StatusCreated :: int where "StatusCreated = 201"
definition StatusBadRequest :: int where "StatusBadRequest = 400"
definition StatusRequestEntityTooLarge :: int where "StatusRequestEntityTooLarge = 413"

text \<open>
  \<^verbatim>\<open>validateRequest\<close>, with the reading of \<^verbatim>\<open>time.Now().Unix()\<close> as an argument. The
  comparisons on \<^verbatim>\<open>int64\<close> are signed and the subtraction wraps around. The messages
  built by \<^verbatim>\<open>fmt.Sprintf\<close> from the constants are written out.
\<close>

definition validateRequest :: "64 word \<Rightarrow> dropCreateRequest \<Rightarrow> int \<times> string" where
  "validateRequest now req =
     (if req_Ciphertext req = [] then
        (StatusBadRequest, ''missing required field: ciphertext'')
      else if req_Salt req = [] then
        (StatusBadRequest, ''missing required field: salt'')
      else if req_IV req = [] then
        (StatusBadRequest, ''missing required field: iv'')
      else if length (req_Ciphertext req) > MaxCiphertextLen then
        (StatusRequestEntityTooLarge, ''ciphertext exceeds maximum size (limit: 2.0 MB)'')
      else if length (req_Salt req) > MaxSaltLen then
        (StatusBadRequest, ''salt exceeds maximum length (64 bytes)'')
      else if length (req_IV req) > MaxIVLen then
        (StatusBadRequest, ''iv exceeds maximum length (64 bytes)'')
      else if req_Expiry req \<le>s now then
        (StatusBadRequest, ''expiry must be in the future'')
      else
        let duration = req_Expiry req - now
        in if duration <s MinExpirySeconds then
             (StatusBadRequest, ''expiry must be at least 60 seconds from now'')
           else if MaxExpirySeconds <s duration then
             (StatusBadRequest, ''expiry cannot exceed 24 hours from now'')
           else if req_MaxViews req < MinMaxViews then
             (StatusBadRequest, ''max_views must be at least 1'')
           else if req_MaxViews req > MaxMaxViews then
             (StatusBadRequest, ''max_views cannot exceed 100'')
           else (0, []))"

text \<open>
  \<^verbatim>\<open>time.Unix(sec, 0)\<close>, as nanoseconds since the epoch. A \<^verbatim>\<open>time.Time\<close> built this way
  holds the seconds since the year 1 in an \<^verbatim>\<open>int64\<close>: \<^verbatim>\<open>time.Unix\<close> adds the offset
  \<^verbatim>\<open>unixToInternal\<close> of the epoch to \<open>sec\<close>, and the sum wraps around.
\<close>

definition unixToInternal :: "64 word" where
  "unixToInternal = 62135596800"

definition Unix :: "64 word \<Rightarrow> time" where
  "Unix sec = (sint (sec + unixToInternal) - sint unixToInternal) * 1000000000"

text \<open>
  The create handler from the point where the body is decoded: \<open>raw\<close> is the body as
  received, \<open>req\<close> what it decodes to, \<open>newid\<close> the result of \<^verbatim>\<open>randomID()\<close>. It answers
  with a status and a body, and returns the store.
\<close>

datatype body = errorResponse string | dropCreateResponse string string

definition createDrop ::
  "Store \<Rightarrow> string \<Rightarrow> 64 word \<Rightarrow> string \<Rightarrow> bytes \<Rightarrow> dropCreateRequest
     \<Rightarrow> (int \<times> body) \<times> Store" where
  "createDrop store baseURL now newid raw req =
     (case validateRequest now req of
        (status, msg) \<Rightarrow>
          if status \<noteq> 0 then ((status, errorResponse msg), store)
          else
            let expiry = Unix (req_Expiry req);
                link = baseURL @ ''/v1/drop/'' @ newid
            in ((StatusCreated, dropCreateResponse newid link),
                Put store newid raw (req_MaxViews req) expiry))"

text \<open>
  The bounds of the admission policy as the specification lists them, on the exact
  difference of the two instants.
\<close>

definition admissible :: "64 word \<Rightarrow> dropCreateRequest \<Rightarrow> bool" where
  "admissible now req =
     (req_Ciphertext req \<noteq> [] \<and> req_Salt req \<noteq> [] \<and> req_IV req \<noteq> []
      \<and> length (req_Ciphertext req) \<le> 2097152
      \<and> length (req_Salt req) \<le> 64 \<and> length (req_IV req) \<le> 64
      \<and> sint now < sint (req_Expiry req)
      \<and> 60 \<le> sint (req_Expiry req) - sint now
      \<and> sint (req_Expiry req) - sint now \<le> 86400
      \<and> 1 \<le> req_MaxViews req \<and> req_MaxViews req \<le> 100)"

text \<open>The answers of the rules of \<^verbatim>\<open>validateRequest\<close>, in its order.\<close>

definition rejections :: "(int \<times> string) list" where
  "rejections =
     [(400, ''missing required field: ciphertext''),
      (400, ''missing required field: salt''),
      (400, ''missing required field: iv''),
      (413, ''ciphertext exceeds maximum size (limit: 2.0 MB)''),
      (400, ''salt exceeds maximum length (64 bytes)''),
      (400, ''iv exceeds maximum length (64 bytes)''),
      (400, ''expiry must be in the future''),
      (400, ''expiry must be at least 60 seconds from now''),
      (400, ''expiry cannot exceed 24 hours from now''),
      (400, ''max_views must be at least 1''),
      (400, ''max_views cannot exceed 100'')]"

text \<open>
  The first bound of the admission policy a request violates, by its place in
  \<open>rejections\<close>, on the exact difference of the two instants.
\<close>

definition first_violation :: "64 word \<Rightarrow> dropCreateRequest \<Rightarrow> nat option" where
  "first_violation now req =
     (if req_Ciphertext req = [] then Some 0
      else if req_Salt req = [] then Some 1
      else if req_IV req = [] then Some 2
      else if 2097152 < length (req_Ciphertext req) then Some 3
      else if 64 < length (req_Salt req) then Some 4
      else if 64 < length (req_IV req) then Some 5
      else if sint (req_Expiry req) \<le> sint now then Some 6
      else if sint (req_Expiry req) - sint now < 60 then Some 7
      else if 86400 < sint (req_Expiry req) - sint now then Some 8
      else if req_MaxViews req < 1 then Some 9
      else if 100 < req_MaxViews req then Some 10
      else None)"

text \<open>The request of the examples: valid, expiring 120 seconds after the clock reading 1000.\<close>

definition req1 :: dropCreateRequest where
  "req1 = \<lparr>req_Ciphertext = ''Y2lwaGVy'', req_Salt = ''c2FsdA=='', req_IV = ''aXY='',
           req_KDF = \<lparr>Algorithm = ''argon2id'', Time = 3, Memory = 65536, Threads = 4\<rparr>,
           req_Expiry = 1120, req_MaxViews = 2\<rparr>"

section \<open>The envelope codec (internal/crypto)\<close>

text \<open>
  The byte slices of the codec are \<open>byte list\<close>s: the code only takes their length, so
  the nil slice and the empty one are the same here. A pointer to a payload is an
  \<open>EncryptedPayload option\<close>, \<open>None\<close> the nil pointer. The fields of the payload carry
  the prefix \<open>payload_\<close>.
\<close>

definition argon2Time :: "32 word" where "argon2Time = 3"
definition argon2Memory :: "32 word" where "argon2Memory = 64 * 1024"
definition argon2Threads :: "8 word" where "argon2Threads = 4"
definition argon2KeyLen :: "32 word" where "argon2KeyLen = 32"
definition saltSize :: nat where "saltSize = 16"
definition gcmNonceSize :: nat where "gcmNonceSize = 12"

record EncryptedPayload =
  payload_Ciphertext :: string
  payload_Salt :: string
  payload_IV :: string
  payload_KDF :: KDFParams
  payload_Expiry :: "64 word"
  payload_MaxViews :: int

datatype crypto_error =
    ErrPlaintextEmpty | ErrPasswordEmpty | ErrGenerateSalt | ErrGenerateIV
  | ErrAESNewCipher | ErrGCM | ErrPayloadNil
  | ErrInvalidSalt | ErrInvalidSaltLength | ErrInvalidIV | ErrInvalidIVLength
  | ErrInvalidCiphertext | ErrDecryptionFailed
  | ErrMarshal | ErrInvalidPayload | ErrIncompletePayload

text \<open>
  The codec calls packages that are not part of the repository: \<^verbatim>\<open>argon2\<close>,
  \<^verbatim>\<open>crypto/aes\<close>, \<^verbatim>\<open>crypto/cipher\<close>, \<^verbatim>\<open>encoding/base64\<close> and \<^verbatim>\<open>encoding/json\<close>. Their
  functions are the fields of a record the codec takes as an argument; an error result
  of theirs is \<open>None\<close>. \<^verbatim>\<open>Seal\<close> and \<^verbatim>\<open>Open\<close> are called with a nil destination and no
  additional data, so they take the nonce and the text only.
\<close>

record ('blk, 'aead) library =
  IDKey :: "byte list \<Rightarrow> byte list \<Rightarrow> 32 word \<Rightarrow> 32 word \<Rightarrow> 8 word \<Rightarrow> 32 word \<Rightarrow> byte list"
  NewCipher :: "byte list \<Rightarrow> 'blk option"
  NewGCM :: "'blk \<Rightarrow> 'aead option"
  Seal :: "'aead \<Rightarrow> byte list \<Rightarrow> byte list \<Rightarrow> byte list"
  Open :: "'aead \<Rightarrow> byte list \<Rightarrow> byte list \<Rightarrow> byte list option"
  EncodeToString :: "byte list \<Rightarrow> string"
  DecodeString :: "string \<Rightarrow> byte list option"
  Marshal :: "EncryptedPayload option \<Rightarrow> byte list option"
  Unmarshal :: "byte list \<Rightarrow> EncryptedPayload option"

text \<open>The conversion \<^verbatim>\<open>[]byte(password)\<close>.\<close>

definition bytes_of_string :: "string \<Rightarrow> byte list" where
  "bytes_of_string str = map (\<lambda>c. word_of_nat (of_char c)) str"

text \<open>
  \<^verbatim>\<open>io.ReadFull(rand.Reader, buf)\<close>: the random source is the list of the bytes it
  will deliver; reading \<open>n\<close> bytes returns them and the rest of the source, or fails
  when the source delivers fewer.
\<close>

definition ReadFull :: "byte list \<Rightarrow> nat \<Rightarrow> (byte list \<times> byte list) option" where
  "ReadFull rnd n = (if length rnd < n then None else Some (take n rnd, drop n rnd))"

definition Encrypt ::
  "('blk, 'aead) library \<Rightarrow> byte list \<Rightarrow> byte list \<Rightarrow> string
     \<Rightarrow> crypto_error + EncryptedPayload" where
  "Encrypt lib rnd plaintext password =
     (if length plaintext = 0 then Inl ErrPlaintextEmpty
      else if password = [] then Inl ErrPasswordEmpty
      else
        case ReadFull rnd saltSize of
          None \<Rightarrow> Inl ErrGenerateSalt
        | Some (salt, rnd') \<Rightarrow>
            case ReadFull rnd' gcmNonceSize of
              None \<Rightarrow> Inl ErrGenerateIV
            | Some (nonce, rnd'') \<Rightarrow>
                let key = IDKey lib (bytes_of_string password) salt
                            argon2Time argon2Memory argon2Threads argon2KeyLen
                in case NewCipher lib key of
                     None \<Rightarrow> Inl ErrAESNewCipher
                   | Some block \<Rightarrow>
                       case NewGCM lib block of
                         None \<Rightarrow> Inl ErrGCM
                       | Some gcm \<Rightarrow>
                           let ciphertext = Seal lib gcm nonce plaintext
                           in Inr \<lparr>payload_Ciphertext = EncodeToString lib ciphertext,
                                   payload_Salt = EncodeToString lib salt,
                                   payload_IV = EncodeToString lib nonce,
                                   payload_KDF = \<lparr>Algorithm = ''argon2id'',
                                                   Time = argon2Time,
                                                   Memory = argon2Memory,
                                                   Threads = argon2Threads\<rparr>,
                                   payload_Expiry = 0,
                                   payload_MaxViews = 0\<rparr>)"

definition Decrypt ::
  "('blk, 'aead) library \<Rightarrow> EncryptedPayload option \<Rightarrow> string
     \<Rightarrow> crypto_error + byte list" where
  "Decrypt lib payload password =
     (case payload of
        None \<Rightarrow> Inl ErrPayloadNil
      | Some pl \<Rightarrow>
          if password = [] then Inl ErrPasswordEmpty
          else
            case DecodeString lib (payload_Salt pl) of
              None \<Rightarrow> Inl ErrInvalidSalt
            | Some salt \<Rightarrow>
                if length salt \<noteq> saltSize then Inl ErrInvalidSaltLength
                else
                  case DecodeString lib (payload_IV pl) of
                    None \<Rightarrow> Inl ErrInvalidIV
                  | Some nonce \<Rightarrow>
                      if length nonce \<noteq> gcmNonceSize then Inl ErrInvalidIVLength
                      else
                        case DecodeString lib (payload_Ciphertext pl) of
                          None \<Rightarrow> Inl ErrInvalidCiphertext
                        | Some ciphertext \<Rightarrow>
                            let key = IDKey lib (bytes_of_string password) salt
                                        (Time (payload_KDF pl)) (Memory (payload_KDF pl))
                                        (Threads (payload_KDF pl)) argon2KeyLen
                            in case NewCipher lib key of
                                 None \<Rightarrow> Inl ErrAESNewCipher
                               | Some block \<Rightarrow>
                                   case NewGCM lib block of
                                     None \<Rightarrow> Inl ErrGCM
                                   | Some gcm \<Rightarrow>
                                       case Open lib gcm nonce ciphertext of
                                         None \<Rightarrow> Inl ErrDecryptionFailed
                                       | Some plaintext \<Rightarrow> Inr plaintext)"

definition SerializePayload ::
  "('blk, 'aead) library \<Rightarrow> EncryptedPayload option \<Rightarrow> crypto_error + byte list" where
  "SerializePayload lib p =
     (case Marshal lib p of None \<Rightarrow> Inl ErrMarshal | Some data \<Rightarrow> Inr data)"

definition DeserializePayload ::
  "('blk, 'aead) library \<Rightarrow> byte list \<Rightarrow> crypto_error + EncryptedPayload" where
  "DeserializePayload lib data =
     (case Unmarshal lib data of
        None \<Rightarrow> Inl ErrInvalidPayload
      | Some p \<Rightarrow>
          if payload_Ciphertext p = [] \<or> payload_Salt p = [] \<or> payload_IV p = []
          then Inl ErrIncompletePayload
          else Inr p)"

subsection \<open>What the codec relies on in the packages it calls\<close>

text \<open>
  \<^item> base64: decoding an encoding gives the bytes back;
  \<^item> Argon2 and AES: the key derived with the codec's parameters is accepted by
    \<^verbatim>\<open>aes.NewCipher\<close>, and \<^verbatim>\<open>cipher.NewGCM\<close> accepts the block;
  \<^item> the AEAD, for the message \<open>m\<close>: opening what was sealed, with the same cipher and a
    nonce of 12 bytes, gives \<open>m\<close> back.
\<close>

definition base64_inverts :: "('blk, 'aead) library \<Rightarrow> bool" where
  "base64_inverts lib = (\<forall>bs. DecodeString lib (EncodeToString lib bs) = Some bs)"

definition key_accepted :: "('blk, 'aead) library \<Rightarrow> bool" where
  "key_accepted lib =
     (\<forall>pw salt. \<exists>block gcm.
        NewCipher lib (IDKey lib pw salt argon2Time argon2Memory argon2Threads argon2KeyLen)
          = Some block
        \<and> NewGCM lib block = Some gcm)"

definition aead_inverts :: "('blk, 'aead) library \<Rightarrow> byte list \<Rightarrow> bool" where
  "aead_inverts lib m =
     (\<forall>gcm nonce. length nonce = gcmNonceSize
        \<longrightarrow> Open lib gcm nonce (Seal lib gcm nonce m) = Some m)"

text \<open>
  \<^verbatim>\<open>encoding/json\<close>, for the payload \<open>p\<close>: marshalling it succeeds and unmarshalling
  the result gives \<open>p\<close> back.
\<close>

definition json_inverts :: "('blk, 'aead) library \<Rightarrow> EncryptedPayload \<Rightarrow> bool" where
  "json_inverts lib p =
     (case Marshal lib (Some p) of None \<Rightarrow> False | Some data \<Rightarrow> Unmarshal lib data = Some p)"

text \<open>
  A small library that meets these, for the examples: the key is the first 32 bytes of
  password, salt and padding, the cipher is its key, sealing prefixes the text with key
  and nonce and opening checks and removes them, and the base64 functions map a byte to
  the character of the same code. Its marshalling writes the three text fields of a
  payload behind the lengths of the first two, and its unmarshalling reads them back
  into a payload with the codec's parameters.
\<close>

definition string_of_bytes :: "byte list \<Rightarrow> string" where
  "string_of_bytes bs = map (\<lambda>b. char_of (unat b)) bs"

definition toy_marshal :: "EncryptedPayload option \<Rightarrow> byte list option" where
  "toy_marshal p =
     (case p of
        None \<Rightarrow> Some []
      | Some pl \<Rightarrow>
          Some (word_of_nat (length (payload_Ciphertext pl))
                # word_of_nat (length (payload_Salt pl))
                # bytes_of_string (payload_Ciphertext pl @ payload_Salt pl @ payload_IV pl)))"

definition toy_unmarshal :: "byte list \<Rightarrow> EncryptedPayload option" where
  "toy_unmarshal data =
     (case data of
        c # s # rest \<Rightarrow>
          Some \<lparr>payload_Ciphertext = string_of_bytes (take (unat c) rest),
                payload_Salt = string_of_bytes (take (unat s) (drop (unat c) rest)),
                payload_IV = string_of_bytes (drop (unat c + unat s) rest),
                payload_KDF = \<lparr>Algorithm = ''argon2id'', Time = 3, Memory = 65536,
                                Threads = 4\<rparr>,
                payload_Expiry = 0, payload_MaxViews = 0\<rparr>
      | _ \<Rightarrow> None)"

definition toy :: "(byte list, byte list) library" where
  "toy = \<lparr>IDKey = (\<lambda>pw salt t m p n. take (unat n) (pw @ salt @ replicate (unat n) 0)),
          NewCipher = (\<lambda>key. if length key \<in> {16, 24, 32} then Some key else None),
          NewGCM = Some,
          Seal = (\<lambda>gcm nonce text. gcm @ nonce @ text),
          Open = (\<lambda>gcm nonce sealed.
                    if take (length gcm + length nonce) sealed = gcm @ nonce
                    then Some (drop (length gcm + length nonce) sealed) else None),
          EncodeToString = string_of_bytes,
          DecodeString = (\<lambda>str. Some (bytes_of_string str)),
          Marshal = toy_marshal,
          Unmarshal = toy_unmarshal\<rparr>"

definition rnd1 :: "byte list" where
  "rnd1 = [1, 2, 3, 4, 5, 6, 7, 8, 9, 10, 11, 12, 13, 14, 15, 16,
           17, 18, 19, 20, 21, 22, 23, 24, 25, 26, 27, 28]"

definition payload1 :: EncryptedPayload where
  "payload1 = \<lparr>payload_Ciphertext = ''Y2lwaGVy'', payload_Salt = ''c2FsdA=='',
               payload_IV = ''aXY='',
               payload_KDF = \<lparr>Algorithm = ''argon2id'', Time = 3, Memory = 65536,
                               Threads = 4\<rparr>,
               payload_Expiry = 0, payload_MaxViews = 0\<rparr>"

section \<open>Properties of the store\<close>

subsection \<open>The sweep loop\<close>

lemma expireOld_loop_secrets:
  "secrets (expireOld_loop now keys s) key =
     (case secrets s key of
        None \<Rightarrow> None
      | Some sec \<Rightarrow> if key \<in> set keys \<and> After now (Expiry sec) then None else Some sec)"
  by (induction keys arbitrary: s) (auto simp: delete_key_def split: option.splits)

lemma expireOld_loop_eq:
  assumes "set keys = dom (secrets s)"
  shows "expireOld_loop now keys s = expireOld s now"
proof -
  have "secrets (expireOld_loop now keys s) key = secrets (expireOld s now) key" for key
    using assms by (auto simp: expireOld_loop_secrets expireOld_def split: option.splits)
  then have "secrets (expireOld_loop now keys s) = secrets (expireOld s now)"
    by (rule ext)
  then show ?thesis by simp
qed

subsection \<open>Basic facts\<close>

lemma delete_key_absent:
  "secrets s key = None \<Longrightarrow> delete_key s key = s"
  by (simp add: delete_key_def fun_upd_idem)

lemma secrets_delete_key:
  "secrets (delete_key s key) = (secrets s)(key := None)"
  by (simp add: delete_key_def)

lemma GetWithReason_absent:
  "secrets s key = None \<Longrightarrow> GetWithReason s now key = ((None, ReasonNotFound), s)"
  by (simp add: GetWithReason_def)

lemma GetWithReason_expired:
  "secrets s key = Some sec \<Longrightarrow> Expiry sec < now \<Longrightarrow>
   GetWithReason s now key = ((None, ReasonExpired), delete_key s key)"
  by (simp add: GetWithReason_def After_def)


lemma GetWithReason_view:
  "secrets s key = Some sec \<Longrightarrow> now \<le> Expiry sec \<Longrightarrow> 0 < ViewsRemaining sec \<Longrightarrow>
   GetWithReason s now key =
     ((Blob sec, ReasonNotFound),
      if ViewsRemaining sec = 1 then delete_key s key
      else s\<lparr>secrets := (secrets s)(key \<mapsto> sec\<lparr>ViewsRemaining := ViewsRemaining sec - 1\<rparr>)\<rparr>)"
  by (auto simp: GetWithReason_def After_def Let_def)

lemma store1_secrets:
  "secrets (store1 n e) ''k1'' =
     Some \<lparr>Blob = blob1, ViewsRemaining = n, Expiry = e, MaxViews = n\<rparr>"
  by (simp add: store1_def Put_def)

subsection \<open>Get and GetWithReason\<close>

text \<open>
  C9. For every store, clock reading and id, \<open>Get\<close> returns the blob that
  \<open>GetWithReason\<close> returns, with the flag "the blob is not nil", and leaves the store
  that \<open>GetWithReason\<close> leaves. On the path that serves a view (the entry exists, the
  clock is not after its expiry, a view remains) \<open>GetWithReason\<close> returns the stored blob
  with \<open>ReasonNotFound\<close>, the constant of value 0, and so it does whenever the blob it
  returns is not nil. The reason type has three values and none of them means success.
\<close>

theorem Get_refines_GetWithReason:
  "fst (fst (Get s now key)) = fst (fst (GetWithReason s now key))
   \<and> snd (fst (Get s now key)) = (fst (fst (GetWithReason s now key)) \<noteq> None)
   \<and> snd (Get s now key) = snd (GetWithReason s now key)
   \<and> (secrets s key = Some sec \<and> \<not> After now (Expiry sec) \<and> 0 < ViewsRemaining sec
        \<longrightarrow> fst (GetWithReason s now key) = (Blob sec, ReasonNotFound))
   \<and> (fst (fst (GetWithReason s now key)) \<noteq> None
        \<longrightarrow> snd (fst (GetWithReason s now key)) = ReasonNotFound
            \<and> reason_value (snd (fst (GetWithReason s now key))) = 0)
   \<and> (UNIV :: NotFoundReason set) = {ReasonNotFound, ReasonExpired, ReasonMaxViews}"
proof -
  have "(UNIV :: NotFoundReason set) = {ReasonNotFound, ReasonExpired, ReasonMaxViews}"
  proof -
    have "r \<in> {ReasonNotFound, ReasonExpired, ReasonMaxViews}" for r
      by (cases r) simp_all
    then show ?thesis by blast
  qed
  then show ?thesis
    by (auto simp: Get_def GetWithReason_def Let_def split: option.splits prod.splits)
qed

theorem Get_refines_GetWithReason_witness:
  "fst (Get (store1 2 60) 10 ''k1'') = (blob1, True)
   \<and> fst (GetWithReason (store1 2 60) 10 ''k1'') = (blob1, ReasonNotFound)
   \<and> blob1 \<noteq> None"
proof -
  let ?sec = "\<lparr>Blob = blob1, ViewsRemaining = 2, Expiry = 60, MaxViews = 2\<rparr>"
  have ok: "secrets (store1 2 60) ''k1'' = Some ?sec \<and> \<not> After 10 (Expiry ?sec)
      \<and> 0 < ViewsRemaining ?sec"
    by (simp add: store1_secrets After_def)
  have b: "blob1 \<noteq> None"
    by (simp add: blob1_def)
  from Get_refines_GetWithReason [of "store1 2 60" 10 "''k1''" ?sec] ok
  have g: "fst (GetWithReason (store1 2 60) 10 ''k1'') = (blob1, ReasonNotFound)"
    and f: "fst (fst (Get (store1 2 60) 10 ''k1'')) = fst (fst (GetWithReason (store1 2 60) 10 ''k1''))"
    and n: "snd (fst (Get (store1 2 60) 10 ''k1'')) = (fst (fst (GetWithReason (store1 2 60) 10 ''k1'')) \<noteq> None)"
    by simp_all
  from f n g b have "fst (Get (store1 2 60) 10 ''k1'') = (blob1, True)"
    by (simp add: prod_eq_iff)
  with g b show ?thesis by simp
qed

subsection \<open>Delete\<close>

text \<open>
  C7. \<open>Delete\<close> returns true exactly when the id has an entry, and leaves the map
  without the id and otherwise as it was. On an id with no entry it returns false and
  leaves the store as it is; so does a second \<open>Delete\<close> after a first, a \<open>Delete\<close> after
  the retrieval that burned the entry (its last view, or after its expiry), and a
  \<open>Delete\<close> after the sweep removed it. \<open>Delete\<close> has no error result.
\<close>

theorem Delete_idempotent:
  "fst (Delete s key) = (key \<in> dom (secrets s))
   \<and> secrets (snd (Delete s key)) = (secrets s)(key := None)
   \<and> (key \<notin> dom (secrets s) \<longrightarrow> Delete s key = (False, s))
   \<and> Delete (snd (Delete s key)) key = (False, snd (Delete s key))
   \<and> (secrets s key = Some sec \<and> (After now (Expiry sec) \<or> ViewsRemaining sec \<le> 1)
        \<longrightarrow> Delete (snd (GetWithReason s now key)) key = (False, snd (GetWithReason s now key)))
   \<and> (secrets s key = Some sec \<and> After now (Expiry sec)
        \<longrightarrow> Delete (expireOld s now) key = (False, expireOld s now))"
proof -
  have absent: "Delete t key = (False, t)" if "secrets t key = None" for t
    using that by (simp add: Delete_def delete_key_absent)
  have 1: "fst (Delete s key) = (key \<in> dom (secrets s))"
    by (auto simp: Delete_def)
  have 2: "secrets (snd (Delete s key)) = (secrets s)(key := None)"
    by (simp add: Delete_def secrets_delete_key)
  have 3: "key \<notin> dom (secrets s) \<longrightarrow> Delete s key = (False, s)"
    using absent [of s] by (auto simp: domIff)
  have 4: "Delete (snd (Delete s key)) key = (False, snd (Delete s key))"
    by (rule absent) (simp add: 2)
  have 5: "Delete (snd (GetWithReason s now key)) key = (False, snd (GetWithReason s now key))"
    if "secrets s key = Some sec" "After now (Expiry sec) \<or> ViewsRemaining sec \<le> 1"
  proof (rule absent)
    show "secrets (snd (GetWithReason s now key)) key = None"
      using that by (auto simp: GetWithReason_def Let_def secrets_delete_key)
  qed
  have 6: "Delete (expireOld s now) key = (False, expireOld s now)"
    if "secrets s key = Some sec" "After now (Expiry sec)"
    by (rule absent) (simp add: expireOld_def that)
  from 1 2 3 4 5 6 show ?thesis by blast
qed

theorem Delete_idempotent_witness:
  "fst (Delete (store1 1 60) ''k1'') = True
   \<and> fst (Delete (snd (Delete (store1 1 60) ''k1'')) ''k1'') = False
   \<and> fst (Delete (snd (GetWithReason (store1 1 60) 10 ''k1'')) ''k1'') = False
   \<and> fst (Delete (expireOld (store1 5 60) 61) ''k1'') = False
   \<and> fst (Delete NewStore ''k1'') = False"
proof -
  let ?one = "\<lparr>Blob = blob1, ViewsRemaining = 1, Expiry = 60, MaxViews = 1\<rparr>"
  let ?five = "\<lparr>Blob = blob1, ViewsRemaining = 5, Expiry = 60, MaxViews = 5\<rparr>"
  have a: "''k1'' \<in> dom (secrets (store1 1 60))"
    by (simp add: store1_secrets domIff)
  have b: "secrets (store1 1 60) ''k1'' = Some ?one
      \<and> (After 10 (Expiry ?one) \<or> ViewsRemaining ?one \<le> 1)"
    by (simp add: store1_secrets)
  have c: "secrets (store1 5 60) ''k1'' = Some ?five \<and> After 61 (Expiry ?five)"
    by (simp add: store1_secrets After_def)
  have d: "''k1'' \<notin> dom (secrets NewStore)"
    by (simp add: NewStore_def)
  show ?thesis
    using a b c d
      Delete_idempotent [of "store1 1 60" "''k1''" ?one 10]
      Delete_idempotent [of "store1 5 60" "''k1''" ?five 61]
      Delete_idempotent [of NewStore "''k1''" ?one 10]
    by simp
qed

subsection \<open>The retrieval algorithm\<close>





subsection \<open>Expiry precedence\<close>

text \<open>
  C3, as stated, fails at the boundary instant: with views remaining and
  \<open>now = expiry\<close> the entry is served, not burned, and its counter goes down.
\<close>

theorem expiry_boundary_counterexample:
  "fst (GetWithReason (store1 5 60) 60 ''k1'') = (blob1, ReasonNotFound)
   \<and> blob1 \<noteq> None
   \<and> secrets (snd (GetWithReason (store1 5 60) 60 ''k1'')) ''k1''
       = Some \<lparr>Blob = blob1, ViewsRemaining = 4, Expiry = 60, MaxViews = 5\<rparr>"
  by (simp add: GetWithReason_def store1_secrets After_def blob1_def)

text \<open>
  C3, amended. For every entry, whatever its counter: if the clock is strictly after
  its expiry then \<open>GetWithReason\<close> returns \<open>(nil, ReasonExpired)\<close>, never a blob, and
  leaves the map without the entry and otherwise untouched (no counter is decremented).
  At or before the instant \<open>now = expiry\<close> \<open>GetWithReason\<close> does not return
  \<open>ReasonExpired\<close>; at the instant \<open>now = expiry\<close> itself an entry with a view
  remaining is served: the stored blob is returned with \<open>ReasonNotFound\<close> and the
  counter goes down by one, the entry being deleted when the counter was one.
\<close>

theorem expiry_precedence:
  assumes "secrets s key = Some sec"
  shows "(Expiry sec < now
          \<longrightarrow> fst (GetWithReason s now key) = (None, ReasonExpired)
            \<and> secrets (snd (GetWithReason s now key)) = (secrets s)(key := None))
    \<and> (now \<le> Expiry sec \<longrightarrow> snd (fst (GetWithReason s now key)) \<noteq> ReasonExpired)
    \<and> (now = Expiry sec \<and> 0 < ViewsRemaining sec
          \<longrightarrow> fst (GetWithReason s now key) = (Blob sec, ReasonNotFound)
            \<and> secrets (snd (GetWithReason s now key)) =
                (if ViewsRemaining sec = 1 then (secrets s)(key := None)
                 else (secrets s)(key \<mapsto> sec\<lparr>ViewsRemaining := ViewsRemaining sec - 1\<rparr>)))"
proof -
  have 1: "fst (GetWithReason s now key) = (None, ReasonExpired)
      \<and> secrets (snd (GetWithReason s now key)) = (secrets s)(key := None)"
    if "Expiry sec < now"
    using assms that by (simp add: GetWithReason_expired secrets_delete_key)
  have 2: "snd (fst (GetWithReason s now key)) \<noteq> ReasonExpired" if "now \<le> Expiry sec"
    using assms that by (simp add: GetWithReason_def After_def Let_def)
  have 3: "fst (GetWithReason s now key) = (Blob sec, ReasonNotFound)
      \<and> secrets (snd (GetWithReason s now key)) =
          (if ViewsRemaining sec = 1 then (secrets s)(key := None)
           else (secrets s)(key \<mapsto> sec\<lparr>ViewsRemaining := ViewsRemaining sec - 1\<rparr>))"
    if "now = Expiry sec" "0 < ViewsRemaining sec"
    using assms that by (simp add: GetWithReason_view secrets_delete_key)
  from 1 2 3 show ?thesis by blast
qed

theorem expiry_precedence_witness:
  "fst (GetWithReason (store1 5 60) 61 ''k1'') = (None, ReasonExpired)
   \<and> secrets (snd (GetWithReason (store1 5 60) 61 ''k1'')) ''k1'' = None
   \<and> fst (GetWithReason (store1 5 60) 60 ''k1'') = (blob1, ReasonNotFound)
   \<and> secrets (snd (GetWithReason (store1 5 60) 60 ''k1'')) ''k1''
       = Some \<lparr>Blob = blob1, ViewsRemaining = 4, Expiry = 60, MaxViews = 5\<rparr>
   \<and> snd (fst (GetWithReason (store1 0 60) 60 ''k1'')) \<noteq> ReasonExpired"
proof -
  let ?sec = "\<lambda>n. \<lparr>Blob = blob1, ViewsRemaining = n, Expiry = 60, MaxViews = n\<rparr>"
  have a: "secrets (store1 5 60) ''k1'' = Some (?sec 5)"
    and z: "secrets (store1 0 60) ''k1'' = Some (?sec 0)"
    by (simp_all add: store1_secrets)
  from expiry_precedence [OF a, of 61]
  have 1: "fst (GetWithReason (store1 5 60) 61 ''k1'') = (None, ReasonExpired)
      \<and> secrets (snd (GetWithReason (store1 5 60) 61 ''k1'')) ''k1'' = None"
    by simp
  from expiry_precedence [OF a, of 60]
  have 2: "fst (GetWithReason (store1 5 60) 60 ''k1'') = (blob1, ReasonNotFound)
      \<and> secrets (snd (GetWithReason (store1 5 60) 60 ''k1'')) ''k1''
          = Some \<lparr>Blob = blob1, ViewsRemaining = 4, Expiry = 60, MaxViews = 5\<rparr>"
    by simp
  from expiry_precedence [OF z, of 60]
  have 3: "snd (fst (GetWithReason (store1 0 60) 60 ''k1'')) \<noteq> ReasonExpired"
    by simp
  from 1 2 3 show ?thesis by simp
qed

subsection \<open>Invariants of the store\<close>

lemma run_ops_Nil: "run_ops s [] = s"
  by (simp add: run_ops_def)

lemma run_ops_Cons: "run_ops s (e # evs) = run_ops (step s e) evs"
  by (simp add: run_ops_def)

lemma step_views_positive:
  assumes inv: "\<And>k e. secrets s k = Some e \<Longrightarrow> 1 \<le> ViewsRemaining e"
    and ok: "put_positive ev"
    and present: "secrets (step s ev) key = Some sec"
  shows "1 \<le> ViewsRemaining sec"
proof (cases ev)
  case (Pair now o1)
  show ?thesis
  proof (cases o1)
    case (OpPut k blob maxViews expiry)
    with Pair ok present inv show ?thesis
      by (auto simp: Put_def split: if_splits)
  next
    case (OpGet k)
    with Pair present inv show ?thesis
      by (auto simp: GetWithReason_def Let_def delete_key_def
          split: option.splits if_splits)
  next
    case (OpDelete k)
    with Pair present inv show ?thesis
      by (auto simp: Delete_def delete_key_def split: if_splits)
  next
    case OpSweep
    with Pair present inv show ?thesis
      by (auto simp: expireOld_def split: option.splits if_splits)
  qed
qed

lemma run_ops_views_positive:
  assumes "\<And>k e. secrets s k = Some e \<Longrightarrow> 1 \<le> ViewsRemaining e"
    and "list_all put_positive evs"
    and "secrets (run_ops s evs) key = Some sec"
  shows "1 \<le> ViewsRemaining sec"
  using assms
proof (induction evs arbitrary: s)
  case Nil
  then show ?case by (simp add: run_ops_Nil)
next
  case (Cons ev evs)
  have "\<And>k e. secrets (step s ev) k = Some e \<Longrightarrow> 1 \<le> ViewsRemaining e"
    using step_views_positive [of s ev] Cons.prems(1,2) by simp
  moreover have "list_all put_positive evs"
    using Cons.prems(2) by simp
  moreover have "secrets (run_ops (step s ev) evs) key = Some sec"
    using Cons.prems(3) by (simp add: run_ops_Cons)
  ultimately show ?case
    by (rule Cons.IH)
qed

lemma reachable_views_positive:
  assumes "list_all put_positive evs"
    and "secrets (run_ops NewStore evs) key = Some sec"
  shows "1 \<le> ViewsRemaining sec"
proof (rule run_ops_views_positive [of NewStore evs key sec])
  show "\<And>k e. secrets NewStore k = Some e \<Longrightarrow> 1 \<le> ViewsRemaining e"
    by (simp add: NewStore_def)
qed (use assms in simp_all)

text \<open>
  An operation that is no \<^verbatim>\<open>Put\<close> on the key never creates its entry, never raises its
  counter and never changes its blob or expiry.
\<close>

lemma step_no_increase:
  assumes "no_put key ev" and "secrets (step s ev) key = Some sec'"
  shows "\<exists>sec. secrets s key = Some sec \<and> ViewsRemaining sec' \<le> ViewsRemaining sec
     \<and> Blob sec' = Blob sec \<and> Expiry sec' = Expiry sec"
proof (cases ev)
  case (Pair now o1)
  show ?thesis
  proof (cases o1)
    case (OpPut k blob maxViews expiry)
    with Pair assms show ?thesis
      by (auto simp: Put_def)
  next
    case (OpGet k)
    with Pair assms show ?thesis
      by (auto simp: GetWithReason_def Let_def delete_key_def
          split: option.splits if_splits)
  next
    case (OpDelete k)
    with Pair assms show ?thesis
      by (auto simp: Delete_def delete_key_def split: if_splits)
  next
    case OpSweep
    with Pair assms show ?thesis
      by (auto simp: expireOld_def split: option.splits if_splits)
  qed
qed

lemma run_ops_no_increase:
  assumes "list_all (no_put key) evs" and "secrets (run_ops s evs) key = Some sec'"
  shows "\<exists>sec. secrets s key = Some sec \<and> ViewsRemaining sec' \<le> ViewsRemaining sec
     \<and> Blob sec' = Blob sec \<and> Expiry sec' = Expiry sec"
  using assms
proof (induction evs arbitrary: s)
  case Nil
  then show ?case by (simp add: run_ops_Nil)
next
  case (Cons ev evs)
  from Cons.prems have "secrets (run_ops (step s ev) evs) key = Some sec'"
    and rest: "list_all (no_put key) evs" and first: "no_put key ev"
    by (simp_all add: run_ops_Cons)
  with Cons.IH [of "step s ev"] obtain mid where
    mid: "secrets (step s ev) key = Some mid" "ViewsRemaining sec' \<le> ViewsRemaining mid"
      "Blob sec' = Blob mid" "Expiry sec' = Expiry mid"
    by blast
  from step_no_increase [OF first mid(1)] obtain sec where
    "secrets s key = Some sec" "ViewsRemaining mid \<le> ViewsRemaining sec"
    "Blob mid = Blob sec" "Expiry mid = Expiry sec"
    by blast
  with mid show ?case by auto
qed

lemma Get_none_absent:
  "secrets s key = None \<Longrightarrow> fst (Get s now key) = (None, False)"
  by (simp add: Get_def GetWithReason_def)

lemma Get_none_expired:
  "secrets s key = Some sec \<Longrightarrow> Expiry sec < now \<Longrightarrow> fst (Get s now key) = (None, False)"
  by (simp add: Get_def GetWithReason_def After_def)

lemma expired_stays_unretrievable:
  assumes "secrets s key = Some sec" and "Expiry sec < now" and "list_all (no_put key) evs"
  shows "fst (Get (run_ops s evs) now key) = (None, False)"
proof (cases "secrets (run_ops s evs) key")
  case None
  then show ?thesis by (rule Get_none_absent)
next
  case (Some sec')
  from run_ops_no_increase [OF assms(3) Some] assms(1) have "Expiry sec' = Expiry sec"
    by auto
  with assms(2) Some show ?thesis
    by (simp add: Get_none_expired)
qed

lemma successful_Get_decrements:
  assumes "secrets s key = Some sec" and "fst (fst (GetWithReason s now key)) \<noteq> None"
  shows "secrets (snd (GetWithReason s now key)) key =
     (if ViewsRemaining sec = 1 then None
      else Some (sec\<lparr>ViewsRemaining := ViewsRemaining sec - 1\<rparr>))"
  using assms
  by (auto simp: GetWithReason_def Let_def delete_key_def split: if_splits)

text \<open>The trace of the examples: a secret with two views, retrieved once.\<close>

lemma trace1_secrets:
  "secrets (run_ops NewStore [(0, OpPut ''k1'' blob1 2 60), (10, OpGet ''k1'')]) ''k1''
     = Some \<lparr>Blob = blob1, ViewsRemaining = 1, Expiry = 60, MaxViews = 2\<rparr>"
  by (simp add: run_ops_def NewStore_def Put_def GetWithReason_def After_def)

text \<open>
  C5. Take any sequence of \<open>Put\<close> (each with a view count of at least one),
  \<open>GetWithReason\<close>, \<open>Delete\<close> and sweep operations on a new store, at any clock readings,
  and let \<open>s\<close> be the store it leaves. Then:
  \<^item> every entry of \<open>s\<close> has a counter of at least one, hence never negative: an entry
    whose counter reaches 0 is deleted by the retrieval that brings it there;
  \<^item> over any further operations none of which is a \<open>Put\<close> on the key, an entry still
    present is the one that was there, with a counter no larger and the same expiry;
  \<^item> a retrieval that returns a blob lowers the counter by exactly one (deleting the entry
    when it was one);
  \<^item> an entry whose expiry has passed (the clock is after it) is not retrievable, then or
    after any further operations that do not \<open>Put\<close> the key again, and the next
    \<open>GetWithReason\<close> or \<open>Delete\<close> of the key, and the next sweep, remove it.
\<close>

theorem store_invariant:
  assumes "list_all put_positive evs"
  shows "(secrets (run_ops NewStore evs) key = Some sec \<longrightarrow> 1 \<le> ViewsRemaining sec)
    \<and> (list_all (no_put key) further
         \<and> secrets (run_ops (run_ops NewStore evs) further) key = Some sec'
        \<longrightarrow> (\<exists>e. secrets (run_ops NewStore evs) key = Some e
               \<and> ViewsRemaining sec' \<le> ViewsRemaining e \<and> Expiry sec' = Expiry e))
    \<and> (secrets (run_ops NewStore evs) key = Some sec
         \<and> fst (fst (GetWithReason (run_ops NewStore evs) now key)) \<noteq> None
        \<longrightarrow> secrets (snd (GetWithReason (run_ops NewStore evs) now key)) key =
              (if ViewsRemaining sec = 1 then None
               else Some (sec\<lparr>ViewsRemaining := ViewsRemaining sec - 1\<rparr>)))
    \<and> (secrets (run_ops NewStore evs) key = Some sec \<and> Expiry sec < now
         \<and> list_all (no_put key) further
        \<longrightarrow> fst (Get (run_ops NewStore evs) now key) = (None, False)
            \<and> fst (Get (run_ops (run_ops NewStore evs) further) now key) = (None, False)
            \<and> secrets (snd (GetWithReason (run_ops NewStore evs) now key)) key = None
            \<and> secrets (snd (Delete (run_ops NewStore evs) key)) key = None
            \<and> secrets (expireOld (run_ops NewStore evs) now) key = None)"
proof -
  let ?s = "run_ops NewStore evs"
  have 1: "secrets ?s key = Some sec \<longrightarrow> 1 \<le> ViewsRemaining sec"
    using reachable_views_positive [OF assms] by blast
  have 2: "list_all (no_put key) further \<and> secrets (run_ops ?s further) key = Some sec'
      \<longrightarrow> (\<exists>e. secrets ?s key = Some e
             \<and> ViewsRemaining sec' \<le> ViewsRemaining e \<and> Expiry sec' = Expiry e)"
    using run_ops_no_increase [of key further ?s sec'] by blast
  have 3: "secrets ?s key = Some sec \<and> fst (fst (GetWithReason ?s now key)) \<noteq> None
      \<longrightarrow> secrets (snd (GetWithReason ?s now key)) key =
            (if ViewsRemaining sec = 1 then None
             else Some (sec\<lparr>ViewsRemaining := ViewsRemaining sec - 1\<rparr>))"
    using successful_Get_decrements [of ?s key sec now] by blast
  have 4: "fst (Get ?s now key) = (None, False)
      \<and> fst (Get (run_ops ?s further) now key) = (None, False)
      \<and> secrets (snd (GetWithReason ?s now key)) key = None
      \<and> secrets (snd (Delete ?s key)) key = None
      \<and> secrets (expireOld ?s now) key = None"
    if "secrets ?s key = Some sec" "Expiry sec < now" "list_all (no_put key) further"
  proof -
    have "fst (Get ?s now key) = (None, False)"
      using that by (simp add: Get_none_expired)
    moreover have "fst (Get (run_ops ?s further) now key) = (None, False)"
      using that by (rule expired_stays_unretrievable)
    moreover have "secrets (snd (GetWithReason ?s now key)) key = None"
      using that by (simp add: GetWithReason_expired secrets_delete_key)
    moreover have "secrets (snd (Delete ?s key)) key = None"
      by (simp add: Delete_def secrets_delete_key)
    moreover have "secrets (expireOld ?s now) key = None"
      using that by (simp add: expireOld_def After_def)
    ultimately show ?thesis by blast
  qed
  from 1 2 3 4 show ?thesis by blast
qed

theorem store_invariant_witness:
  "list_all put_positive [(0, OpPut ''k1'' blob1 2 60), (10, OpGet ''k1'')]
   \<and> secrets (run_ops NewStore [(0, OpPut ''k1'' blob1 2 60), (10, OpGet ''k1'')]) ''k1''
       = Some \<lparr>Blob = blob1, ViewsRemaining = 1, Expiry = 60, MaxViews = 2\<rparr>
   \<and> (1::int) \<le> ViewsRemaining \<lparr>Blob = blob1, ViewsRemaining = 1, Expiry = 60, MaxViews = 2\<rparr>
   \<and> secrets (snd (GetWithReason
         (run_ops NewStore [(0, OpPut ''k1'' blob1 2 60), (10, OpGet ''k1'')]) 20 ''k1'')) ''k1''
       = None
   \<and> fst (Get (run_ops NewStore [(0, OpPut ''k1'' blob1 2 60), (10, OpGet ''k1'')]) 61 ''k1'')
       = (None, False)
   \<and> secrets (expireOld
         (run_ops NewStore [(0, OpPut ''k1'' blob1 2 60), (10, OpGet ''k1'')]) 61) ''k1''
       = None"
proof -
  let ?evs = "[(0, OpPut ''k1'' blob1 2 60), (10, OpGet ''k1'')]"
  let ?sec = "\<lparr>Blob = blob1, ViewsRemaining = 1, Expiry = 60, MaxViews = 2\<rparr>"
  have ok: "list_all put_positive ?evs"
    by simp
  have more: "list_all (no_put ''k1'') []"
    by simp
  have blob: "blob1 \<noteq> None"
    by (simp add: blob1_def)
  have served: "fst (fst (GetWithReason (run_ops NewStore ?evs) 20 ''k1'')) \<noteq> None"
    using blob by (simp add: GetWithReason_def trace1_secrets After_def)
  note inv = store_invariant [OF ok, where key = "''k1''" and sec = ?sec and further = "[]"]
  from inv [where now = 20] inv [where now = 61] ok more served trace1_secrets
  show ?thesis
    by simp
qed

text \<open>
  C10. If every \<open>Put\<close> of a sequence of operations on a new store has a view count of
  at least one, then every entry of the store it leaves has a counter of at least one;
  so \<open>GetWithReason\<close> on that store never returns \<open>ReasonMaxViews\<close>, and after the
  retrieval that takes the last view of an entry the next retrieval of the id finds no
  entry and returns \<open>ReasonNotFound\<close>.
\<close>

theorem exhausted_unreachable:
  assumes "list_all put_positive evs"
  shows "(secrets (run_ops NewStore evs) key = Some sec \<longrightarrow> 1 \<le> ViewsRemaining sec)
    \<and> snd (fst (GetWithReason (run_ops NewStore evs) now key)) \<noteq> ReasonMaxViews
    \<and> (secrets (run_ops NewStore evs) key = Some sec \<and> ViewsRemaining sec = 1
         \<and> now \<le> Expiry sec
        \<longrightarrow> fst (GetWithReason (run_ops NewStore evs) now key) = (Blob sec, ReasonNotFound)
            \<and> secrets (snd (GetWithReason (run_ops NewStore evs) now key)) key = None
            \<and> fst (GetWithReason (snd (GetWithReason (run_ops NewStore evs) now key)) later key)
                = (None, ReasonNotFound))"
proof -
  let ?s = "run_ops NewStore evs"
  have pos: "1 \<le> ViewsRemaining e" if "secrets ?s key = Some e" for e
    using reachable_views_positive [OF assms that] .
  have 2: "snd (fst (GetWithReason ?s now key)) \<noteq> ReasonMaxViews"
  proof (cases "secrets ?s key")
    case None
    then show ?thesis by (simp add: GetWithReason_def)
  next
    case (Some e)
    with pos [OF Some] show ?thesis
      by (simp add: GetWithReason_def Let_def)
  qed
  have 3: "fst (GetWithReason ?s now key) = (Blob sec, ReasonNotFound)
      \<and> secrets (snd (GetWithReason ?s now key)) key = None
      \<and> fst (GetWithReason (snd (GetWithReason ?s now key)) later key) = (None, ReasonNotFound)"
    if "secrets ?s key = Some sec" "ViewsRemaining sec = 1" "now \<le> Expiry sec"
  proof -
    have g: "GetWithReason ?s now key = ((Blob sec, ReasonNotFound), delete_key ?s key)"
      using that by (simp add: GetWithReason_view)
    then have "secrets (snd (GetWithReason ?s now key)) key = None"
      by (simp add: secrets_delete_key)
    then have "GetWithReason (snd (GetWithReason ?s now key)) later key
        = ((None, ReasonNotFound), snd (GetWithReason ?s now key))"
      by (rule GetWithReason_absent)
    with g show ?thesis by (simp add: secrets_delete_key)
  qed
  from pos 2 3 show ?thesis by blast
qed

theorem exhausted_unreachable_witness:
  "list_all put_positive [(0, OpPut ''k1'' blob1 2 60), (10, OpGet ''k1'')]
   \<and> snd (fst (GetWithReason
        (run_ops NewStore [(0, OpPut ''k1'' blob1 2 60), (10, OpGet ''k1'')]) 20 ''k1''))
       \<noteq> ReasonMaxViews
   \<and> fst (GetWithReason
        (run_ops NewStore [(0, OpPut ''k1'' blob1 2 60), (10, OpGet ''k1'')]) 20 ''k1'')
       = (blob1, ReasonNotFound)
   \<and> fst (GetWithReason (snd (GetWithReason
        (run_ops NewStore [(0, OpPut ''k1'' blob1 2 60), (10, OpGet ''k1'')]) 20 ''k1''))
          30 ''k1'')
       = (None, ReasonNotFound)"
proof -
  let ?evs = "[(0, OpPut ''k1'' blob1 2 60), (10, OpGet ''k1'')]"
  let ?sec = "\<lparr>Blob = blob1, ViewsRemaining = 1, Expiry = 60, MaxViews = 2\<rparr>"
  have ok: "list_all put_positive ?evs"
    by simp
  from exhausted_unreachable [OF ok, where key = "''k1''" and sec = ?sec and now = 20
      and later = 30] ok trace1_secrets
  show ?thesis
    by simp
qed

section \<open>Properties of the admission policy\<close>

lemma sint_duration:
  fixes e n :: "64 word"
  assumes "sint n < sint e"
  shows "sint e - sint n < 2 ^ 63 \<Longrightarrow> sint (e - n) = sint e - sint n"
    and "2 ^ 63 \<le> sint e - sint n \<Longrightarrow> sint (e - n) < 0"
proof -
  have d: "sint (e - n) = signed_take_bit 63 (sint e - sint n)"
    by (simp add: sint_word_diff)
  have r: "sint e < 2 ^ 63" "- (2 ^ 63) \<le> sint n"
    using sint_lt [of e] sint_ge [of n] by simp_all
  show "sint (e - n) = sint e - sint n" if "sint e - sint n < 2 ^ 63"
    using that assms d by (simp add: signed_take_bit_int_eq_self)
  show "sint (e - n) < 0" if "2 ^ 63 \<le> sint e - sint n"
  proof -
    have "signed_take_bit 63 (sint e - sint n) \<le> sint e - sint n - 2 ^ Suc 63"
      using that by (rule signed_take_bit_int_less_eq)
    moreover have "sint e - sint n < 2 ^ Suc 63"
      using r by simp
    ultimately have "signed_take_bit 63 (sint e - sint n) < 0"
      by linarith
    with d show ?thesis by (simp only:)
  qed
qed

lemma validate_accepts_iff:
  "validateRequest now req = (0, []) \<longleftrightarrow> admissible now req"
proof (cases "sint now < sint (req_Expiry req)")
  case False
  then show ?thesis
    by (auto simp: validateRequest_def admissible_def word_sle_eq StatusBadRequest_def
        StatusRequestEntityTooLarge_def)
next
  case True
  show ?thesis
  proof (cases "sint (req_Expiry req) - sint now < 2 ^ 63")
    case small: True
    have "sint (req_Expiry req - now) = sint (req_Expiry req) - sint now"
      using sint_duration(1) [OF True small] .
    then show ?thesis using True
      by (auto simp: validateRequest_def admissible_def word_sle_eq word_sless_alt Let_def
          StatusBadRequest_def StatusRequestEntityTooLarge_def MaxCiphertextLen_def
          MaxSaltLen_def MaxIVLen_def MinExpirySeconds_def MaxExpirySeconds_def
          MinMaxViews_def MaxMaxViews_def)
  next
    case False
    then have "sint (req_Expiry req - now) < 0"
      using sint_duration(2) [OF True] by simp
    then show ?thesis using True False
      by (auto simp: validateRequest_def admissible_def word_sle_eq word_sless_alt Let_def
          StatusBadRequest_def StatusRequestEntityTooLarge_def MaxCiphertextLen_def
          MaxSaltLen_def MaxIVLen_def MinExpirySeconds_def MaxExpirySeconds_def
          MinMaxViews_def MaxMaxViews_def)
  qed
qed

lemma validate_in_rejections:
  "validateRequest now req = (0, []) \<or> validateRequest now req \<in> set rejections"
  by (simp add: validateRequest_def rejections_def Let_def StatusBadRequest_def
      StatusRequestEntityTooLarge_def)

lemma rejections_distinct: "distinct (map snd rejections)"
  by (simp add: rejections_def)


lemma rejections_nth:
  "rejections ! 0 = (400, ''missing required field: ciphertext'')"
  "rejections ! 1 = (400, ''missing required field: salt'')"
  "rejections ! Suc 0 = (400, ''missing required field: salt'')"
  "rejections ! 2 = (400, ''missing required field: iv'')"
  "rejections ! 3 = (413, ''ciphertext exceeds maximum size (limit: 2.0 MB)'')"
  "rejections ! 4 = (400, ''salt exceeds maximum length (64 bytes)'')"
  "rejections ! 5 = (400, ''iv exceeds maximum length (64 bytes)'')"
  "rejections ! 6 = (400, ''expiry must be in the future'')"
  "rejections ! 7 = (400, ''expiry must be at least 60 seconds from now'')"
  "rejections ! 8 = (400, ''expiry cannot exceed 24 hours from now'')"
  "rejections ! 9 = (400, ''max_views must be at least 1'')"
  "rejections ! 10 = (400, ''max_views cannot exceed 100'')"
  by (simp_all add: rejections_def)

lemma validate_first_violation:
  assumes "sint (req_Expiry req) - sint now < 2 ^ 63"
  shows "validateRequest now req =
     (case first_violation now req of None \<Rightarrow> (0, []) | Some i \<Rightarrow> rejections ! i)"
proof (cases "sint now < sint (req_Expiry req)")
  case False
  then show ?thesis
    by (simp add: validateRequest_def first_violation_def word_sle_eq rejections_nth
        StatusBadRequest_def StatusRequestEntityTooLarge_def MaxCiphertextLen_def
        MaxSaltLen_def MaxIVLen_def)
next
  case True
  have "sint (req_Expiry req - now) = sint (req_Expiry req) - sint now"
    using sint_duration(1) [OF True assms] .
  then show ?thesis using True
    by (simp add: validateRequest_def first_violation_def word_sle_eq word_sless_alt Let_def
        rejections_nth StatusBadRequest_def StatusRequestEntityTooLarge_def
        MaxCiphertextLen_def MaxSaltLen_def MaxIVLen_def MinExpirySeconds_def
        MaxExpirySeconds_def MinMaxViews_def MaxMaxViews_def)
qed

lemma no_overflow_after_epoch:
  fixes e n :: "64 word"
  assumes "0 \<le> sint n"
  shows "sint e - sint n < 2 ^ 63"
  using sint_lt [of e] assms by simp

lemma first_violation_None_iff:
  "first_violation now req = None \<longleftrightarrow> admissible now req"
  by (auto simp: first_violation_def admissible_def)

lemma createDrop_rejected:
  assumes "\<not> admissible now req"
  shows "createDrop store baseURL now newid raw req =
    ((fst (validateRequest now req), errorResponse (snd (validateRequest now req))), store)"
proof -
  have "validateRequest now req \<in> set rejections"
    using assms validate_in_rejections [of now req] validate_accepts_iff [of now req] by blast
  then have "fst (validateRequest now req) \<noteq> 0"
    by (auto simp: rejections_def)
  then show ?thesis
    by (cases "validateRequest now req") (simp add: createDrop_def)
qed

lemma createDrop_accepted:
  assumes "admissible now req"
  shows "createDrop store baseURL now newid raw req =
    ((201, dropCreateResponse newid (baseURL @ ''/v1/drop/'' @ newid)),
     Put store newid raw (req_MaxViews req) (Unix (req_Expiry req)))"
  using assms validate_accepts_iff [of now req]
  by (simp add: createDrop_def StatusCreated_def)

text \<open>
  C6. \<open>validateRequest\<close> accepts a request (status 0) exactly when its ciphertext,
  salt and iv are not empty and within the size caps, its expiry is strictly after the
  clock reading, the difference of the two is at least 60 seconds and at most 24 hours,
  and its view count is in 1..100. Every other request is rejected with one of the
  eleven answers of \<open>rejections\<close>, whose messages differ from one another and whose
  status is not 0; with a clock reading at or after the epoch the answer is the one of
  the first bound the request violates. The create handler leaves the store unchanged
  when the request is rejected, and stores the body under the new id when it is accepted.
\<close>

theorem admission_policy:
  "(validateRequest now req = (0, []) \<longleftrightarrow> admissible now req)
   \<and> (\<not> admissible now req
        \<longrightarrow> validateRequest now req \<in> set rejections \<and> fst (validateRequest now req) \<noteq> 0)
   \<and> distinct (map snd rejections)
   \<and> (0 \<le> sint now
        \<longrightarrow> validateRequest now req =
              (case first_violation now req of None \<Rightarrow> (0, []) | Some i \<Rightarrow> rejections ! i))
   \<and> (\<not> admissible now req
        \<longrightarrow> createDrop store baseURL now newid raw req =
              ((fst (validateRequest now req), errorResponse (snd (validateRequest now req))),
               store))
   \<and> (admissible now req
        \<longrightarrow> createDrop store baseURL now newid raw req =
              ((201, dropCreateResponse newid (baseURL @ ''/v1/drop/'' @ newid)),
               Put store newid raw (req_MaxViews req) (Unix (req_Expiry req))))"
proof -
  have 1: "validateRequest now req = (0, []) \<longleftrightarrow> admissible now req"
    by (rule validate_accepts_iff)
  have 2: "validateRequest now req \<in> set rejections \<and> fst (validateRequest now req) \<noteq> 0"
    if "\<not> admissible now req"
  proof -
    have "validateRequest now req \<in> set rejections"
      using that 1 validate_in_rejections [of now req] by blast
    then show ?thesis
      by (auto simp: rejections_def)
  qed
  have 3: "distinct (map snd rejections)"
    by (rule rejections_distinct)
  have 4: "validateRequest now req =
      (case first_violation now req of None \<Rightarrow> (0, []) | Some i \<Rightarrow> rejections ! i)"
    if "0 \<le> sint now"
    using that by (intro validate_first_violation no_overflow_after_epoch)
  from 1 2 3 4 createDrop_rejected [of now req store baseURL newid raw]
    createDrop_accepted [of now req store baseURL newid raw]
  show ?thesis by blast
qed

theorem admission_policy_witness:
  "admissible 1000 req1
   \<and> validateRequest 1000 req1 = (0, [])
   \<and> createDrop NewStore ''http://h'' 1000 ''id1'' blob1 req1 =
       ((201, dropCreateResponse ''id1'' ''http://h/v1/drop/id1''),
        Put NewStore ''id1'' blob1 2 1120000000000)
   \<and> validateRequest 1000 (req1\<lparr>req_MaxViews := 0\<rparr>) = (400, ''max_views must be at least 1'')
   \<and> snd (createDrop NewStore ''http://h'' 1000 ''id1'' blob1 (req1\<lparr>req_MaxViews := 0\<rparr>))
       = NewStore"
proof -
  have a: "admissible 1000 req1"
    by (simp add: admissible_def req1_def)
  have b: "\<not> admissible 1000 (req1\<lparr>req_MaxViews := 0\<rparr>)"
    by (simp add: admissible_def req1_def)
  have c: "first_violation 1000 (req1\<lparr>req_MaxViews := 0\<rparr>) = Some 9"
    by (simp add: first_violation_def req1_def)
  have d: "(0::int) \<le> sint (1000 :: 64 word)"
    by simp
  have e: "req_MaxViews req1 = 2 \<and> Unix (req_Expiry req1) = 1120000000000"
    by (simp add: req1_def Unix_def unixToInternal_def)
  from admission_policy [of 1000 req1 NewStore "''http://h''" "''id1''" blob1] a e
  have "validateRequest 1000 req1 = (0, [])"
    and "createDrop NewStore ''http://h'' 1000 ''id1'' blob1 req1 =
       ((201, dropCreateResponse ''id1'' ''http://h/v1/drop/id1''),
        Put NewStore ''id1'' blob1 2 1120000000000)"
    by simp_all
  moreover
  from admission_policy [of 1000 "req1\<lparr>req_MaxViews := 0\<rparr>" NewStore "''http://h''" "''id1''" blob1]
    b c d
  have "validateRequest 1000 (req1\<lparr>req_MaxViews := 0\<rparr>) = (400, ''max_views must be at least 1'')"
    and "snd (createDrop NewStore ''http://h'' 1000 ''id1'' blob1 (req1\<lparr>req_MaxViews := 0\<rparr>))
       = NewStore"
    by (simp_all add: rejections_nth)
  ultimately show ?thesis
    using a by simp
qed

section \<open>Properties of the envelope codec\<close>

lemma ReadFull_enough:
  "n \<le> length rnd \<Longrightarrow> ReadFull rnd n = Some (take n rnd, drop n rnd)"
  by (simp add: ReadFull_def)

lemma Decrypt_Encrypt:
  assumes b64: "base64_inverts lib" and key: "key_accepted lib" and aead: "aead_inverts lib m"
    and m: "m \<noteq> []" and p: "p \<noteq> []" and rnd: "saltSize + gcmNonceSize \<le> length rnd"
  shows "\<exists>payload. Encrypt lib rnd m p = Inr payload
    \<and> (\<forall>e v. Decrypt lib (Some (payload\<lparr>payload_Expiry := e, payload_MaxViews := v\<rparr>)) p
              = Inr m)"
proof -
  define salt where "salt = take saltSize rnd"
  define nonce where "nonce = take gcmNonceSize (drop saltSize rnd)"
  define k where "k = IDKey lib (bytes_of_string p) salt argon2Time argon2Memory argon2Threads argon2KeyLen"
  from key obtain block gcm where blk: "NewCipher lib k = Some block" and gcm: "NewGCM lib block = Some gcm"
    unfolding key_accepted_def k_def by blast
  define payload where "payload = \<lparr>payload_Ciphertext = EncodeToString lib (Seal lib gcm nonce m),
      payload_Salt = EncodeToString lib salt, payload_IV = EncodeToString lib nonce,
      payload_KDF = \<lparr>Algorithm = ''argon2id'', Time = argon2Time, Memory = argon2Memory,
        Threads = argon2Threads\<rparr>, payload_Expiry = 0, payload_MaxViews = 0\<rparr>"
  have ls: "length salt = saltSize" and ln: "length nonce = gcmNonceSize"
    using rnd by (simp_all add: salt_def nonce_def)
  have r1: "ReadFull rnd saltSize = Some (salt, drop saltSize rnd)"
    using rnd by (simp add: ReadFull_enough salt_def)
  have r2: "ReadFull (drop saltSize rnd) gcmNonceSize = Some (nonce, drop gcmNonceSize (drop saltSize rnd))"
    using rnd by (simp add: ReadFull_enough nonce_def)
  have enc: "Encrypt lib rnd m p = Inr payload"
    using m p by (simp add: Encrypt_def r1 r2 blk gcm payload_def k_def [symmetric] Let_def)
  have dec: "DecodeString lib (EncodeToString lib bs) = Some bs" for bs
    using b64 by (simp add: base64_inverts_def)
  have op: "Open lib gcm nonce (Seal lib gcm nonce m) = Some m"
    using aead ln by (simp add: aead_inverts_def)
  have "Decrypt lib (Some (payload\<lparr>payload_Expiry := e, payload_MaxViews := v\<rparr>)) p = Inr m" for e v
    using p by (simp add: Decrypt_def payload_def dec ls ln k_def [symmetric] blk gcm op)
  with enc show ?thesis by blast
qed

lemma unat_byte_less: "unat (b :: byte) < 256"
  using unsigned_less [of b, where ?'a = nat] by simp

lemma string_of_bytes_inverse: "bytes_of_string (string_of_bytes bs) = bs"
  by (induction bs) (simp_all add: bytes_of_string_def string_of_bytes_def unat_byte_less)

lemma bytes_of_string_inverse: "string_of_bytes (bytes_of_string str) = str"
  by (induction str) (simp_all add: bytes_of_string_def string_of_bytes_def unat_of_nat)

lemma toy_base64: "base64_inverts toy"
  by (simp add: base64_inverts_def toy_def string_of_bytes_inverse)

lemma toy_key: "key_accepted toy"
proof -
  have "length (take 32 (pw @ salt @ replicate 32 (0::byte))) = 32" for pw salt
    by simp
  then show ?thesis
    by (simp add: key_accepted_def toy_def argon2KeyLen_def del: length_take take_append)
qed

lemma toy_aead: "aead_inverts toy m"
  by (simp add: aead_inverts_def toy_def)

lemma toy_json: "json_inverts toy payload1"
  by code_simp

text \<open>
  C4. For every non-empty plaintext \<open>m\<close> and non-empty password \<open>p\<close>, when the random
  source delivers the 28 bytes of salt and nonce, \<open>Encrypt\<close> returns a payload and
  \<open>Decrypt\<close> of that payload with \<open>p\<close> returns exactly \<open>m\<close>, also after the caller has set
  the payload's expiry and view count. The packages the codec calls are taken with the
  properties listed above: base64 decoding inverts encoding, the derived key is accepted
  by the cipher, and opening inverts sealing on \<open>m\<close>.
\<close>

theorem codec_round_trip:
  assumes "base64_inverts lib" and "key_accepted lib" and "aead_inverts lib m"
    and "m \<noteq> []" and "p \<noteq> []" and "saltSize + gcmNonceSize \<le> length rnd"
  shows "\<exists>payload. Encrypt lib rnd m p = Inr payload
    \<and> Decrypt lib (Some payload) p = Inr m
    \<and> (\<forall>e v. Decrypt lib (Some (payload\<lparr>payload_Expiry := e, payload_MaxViews := v\<rparr>)) p
              = Inr m)"
proof -
  from Decrypt_Encrypt [OF assms] obtain payload where enc: "Encrypt lib rnd m p = Inr payload"
    and dec: "\<And>e v. Decrypt lib (Some (payload\<lparr>payload_Expiry := e, payload_MaxViews := v\<rparr>)) p
      = Inr m"
    by blast
  have "payload\<lparr>payload_Expiry := payload_Expiry payload,
      payload_MaxViews := payload_MaxViews payload\<rparr> = payload"
    by simp
  with dec [where e = "payload_Expiry payload" and v = "payload_MaxViews payload"]
  have "Decrypt lib (Some payload) p = Inr m"
    by simp
  with enc dec show ?thesis by blast
qed

theorem codec_round_trip_witness:
  "base64_inverts toy \<and> key_accepted toy \<and> aead_inverts toy [104, 105]
   \<and> (\<exists>payload. Encrypt toy rnd1 [104, 105] ''pw'' = Inr payload
        \<and> Decrypt toy (Some payload) ''pw'' = Inr [104, 105])"
proof -
  have m: "[104, 105] \<noteq> ([] :: byte list)" and p: "''pw'' \<noteq> []"
    by simp_all
  have r: "saltSize + gcmNonceSize \<le> length rnd1"
    by (simp add: saltSize_def gcmNonceSize_def rnd1_def)
  from codec_round_trip [OF toy_base64 toy_key toy_aead m p r]
  have "\<exists>payload. Encrypt toy rnd1 [104, 105] ''pw'' = Inr payload
        \<and> Decrypt toy (Some payload) ''pw'' = Inr [104, 105]"
    by blast
  with toy_base64 toy_key toy_aead show ?thesis
    by simp
qed

text \<open>
  C8. For every payload on which \<^verbatim>\<open>encoding/json\<close> inverts itself:
  \<open>SerializePayload\<close> succeeds, and \<open>DeserializePayload\<close> of its result returns the
  payload, equal in every field, when ciphertext, salt and iv are not empty; when one
  of them is empty it returns the error of the incomplete payload.
\<close>

theorem serialize_round_trip:
  assumes "json_inverts lib p"
  shows "(payload_Ciphertext p \<noteq> [] \<and> payload_Salt p \<noteq> [] \<and> payload_IV p \<noteq> []
          \<longrightarrow> (\<exists>data. SerializePayload lib (Some p) = Inr data
                 \<and> DeserializePayload lib data = Inr p))
    \<and> (payload_Ciphertext p = [] \<or> payload_Salt p = [] \<or> payload_IV p = []
          \<longrightarrow> (\<exists>data. SerializePayload lib (Some p) = Inr data
                 \<and> DeserializePayload lib data = Inl ErrIncompletePayload))"
proof -
  from assms obtain data where m: "Marshal lib (Some p) = Some data"
    and u: "Unmarshal lib data = Some p"
    by (auto simp: json_inverts_def split: option.splits)
  have s: "SerializePayload lib (Some p) = Inr data"
    by (simp add: SerializePayload_def m)
  have "DeserializePayload lib data = Inr p"
    if "payload_Ciphertext p \<noteq> []" "payload_Salt p \<noteq> []" "payload_IV p \<noteq> []"
    using that by (simp add: DeserializePayload_def u)
  moreover have "DeserializePayload lib data = Inl ErrIncompletePayload"
    if "payload_Ciphertext p = [] \<or> payload_Salt p = [] \<or> payload_IV p = []"
    using that by (auto simp: DeserializePayload_def u)
  ultimately show ?thesis
    using s by blast
qed

theorem serialize_round_trip_witness:
  "json_inverts toy payload1
   \<and> payload_Ciphertext payload1 \<noteq> [] \<and> payload_Salt payload1 \<noteq> []
   \<and> payload_IV payload1 \<noteq> []
   \<and> (\<exists>data. SerializePayload toy (Some payload1) = Inr data
        \<and> DeserializePayload toy data = Inr payload1)"
proof -
  have f: "payload_Ciphertext payload1 \<noteq> [] \<and> payload_Salt payload1 \<noteq> []
      \<and> payload_IV payload1 \<noteq> []"
    by (simp add: payload1_def)
  with serialize_round_trip [OF toy_json] toy_json show ?thesis
    by blast
qed

section \<open>Properties of concurrent retrievals\<close>

lemma step_absent:
  assumes "no_put key ev" and "secrets s key = None"
  shows "secrets (step s ev) key = None"
proof (cases "secrets (step s ev) key")
  case None
  then show ?thesis .
next
  case (Some sec')
  from step_no_increase [OF assms(1) Some] assms(2) show ?thesis by simp
qed

lemma absent_results:
  assumes "secrets s key = None" and "list_all (no_put key) evs"
  shows "\<forall>r \<in> set (get_results key s evs). r = (None, ReasonNotFound)"
  using assms
proof (induction evs arbitrary: s)
  case Nil
  then show ?case by simp
next
  case (Cons ev evs)
  from Cons.prems have a: "secrets (step s ev) key = None" and l: "list_all (no_put key) evs"
    by (simp_all add: step_absent)
  note ih = Cons.IH [OF a l]
  obtain now o1 where ev: "ev = (now, o1)" by (cases ev)
  show ?case
  proof (cases o1)
    case (OpGet k)
    with ev ih Cons.prems(1) show ?thesis
      by (auto simp: GetWithReason_absent)
  qed (use ev ih in auto)
qed

lemma absent_none_received:
  assumes "secrets s key = None" and "list_all (no_put key) evs"
  shows "filter received (get_results key s evs) = []"
  using absent_results [OF assms] by (auto simp: filter_empty_conv received_def)

lemma last_view_deletes:
  assumes "secrets s key = Some sec" and "ViewsRemaining sec \<le> 1"
  shows "secrets (snd (GetWithReason s now key)) key = None"
  using assms by (auto simp: GetWithReason_def Let_def secrets_delete_key)

lemma at_most_one_received:
  assumes "secrets s key = Some sec" and "ViewsRemaining sec \<le> 1"
    and "list_all (no_put key) evs"
  shows "length (filter received (get_results key s evs)) \<le> 1"
  using assms
proof (induction evs arbitrary: s sec)
  case Nil
  then show ?case by simp
next
  case (Cons ev evs)
  from Cons.prems have l: "list_all (no_put key) evs" and np: "no_put key ev"
    by simp_all
  obtain now o1 where ev: "ev = (now, o1)" by (cases ev)
  have other: "length (filter received (get_results key (step s ev) evs)) \<le> 1"
    if "o1 \<noteq> OpGet key"
  proof (cases "secrets (step s ev) key")
    case None
    then show ?thesis by (simp add: absent_none_received l)
  next
    case (Some sec')
    from step_no_increase [OF np Some] Cons.prems(1,2) have "ViewsRemaining sec' \<le> 1"
      by auto
    then show ?thesis by (rule Cons.IH [OF Some _ l])
  qed
  show ?case
  proof (cases o1)
    case (OpGet k)
    show ?thesis
    proof (cases "k = key")
      case True
      have "secrets (step s ev) key = None"
        using last_view_deletes [OF Cons.prems(1,2)] ev OpGet True by simp
      then have "filter received (get_results key (step s ev) evs) = []"
        using l by (rule absent_none_received)
      with ev OpGet True show ?thesis by simp
    next
      case False
      with other ev OpGet show ?thesis by simp
    qed
  qed (use other ev in auto)
qed

lemma undisturbed_no_put: "undisturbed key e ev \<Longrightarrow> no_put key ev"
  by (cases ev, cases "snd ev") auto

lemma undisturbed_keeps:
  assumes "secrets s key = Some sec" and "undisturbed key (Expiry sec) ev"
    and "snd ev \<noteq> OpGet key"
  shows "secrets (step s ev) key = Some sec"
proof -
  obtain now o1 where ev: "ev = (now, o1)" by (cases ev)
  show ?thesis
  proof (cases o1)
    case (OpPut k blob maxViews expiry)
    with ev assms show ?thesis by (simp add: Put_def)
  next
    case (OpGet k)
    with ev assms show ?thesis
      by (auto simp: GetWithReason_def Let_def delete_key_def split: option.splits)
  next
    case (OpDelete k)
    with ev assms show ?thesis by (simp add: Delete_def delete_key_def)
  next
    case OpSweep
    with ev assms show ?thesis by (simp add: expireOld_def After_def)
  qed
qed

lemma first_caller_receives:
  assumes "secrets s key = Some sec" and "ViewsRemaining sec = 1"
    and "list_all (undisturbed key (Expiry sec)) evs"
  shows "get_results key s evs = []
    \<or> get_results key s evs =
        (Blob sec, ReasonNotFound)
        # replicate (length (get_results key s evs) - 1) (None, ReasonNotFound)"
  using assms
proof (induction evs arbitrary: s)
  case Nil
  then show ?case by simp
next
  case (Cons ev evs)
  from Cons.prems have l: "list_all (undisturbed key (Expiry sec)) evs"
    and u: "undisturbed key (Expiry sec) ev"
    by simp_all
  obtain now o1 where ev: "ev = (now, o1)" by (cases ev)
  show ?case
  proof (cases "o1 = OpGet key")
    case True
    from u ev True have t: "now \<le> Expiry sec" by simp
    have g: "GetWithReason s now key = ((Blob sec, ReasonNotFound), delete_key s key)"
      using Cons.prems(1,2) t by (simp add: GetWithReason_view)
    have "list_all (no_put key) evs"
      using l by (induction evs) (auto dest: undisturbed_no_put)
    moreover have "secrets (delete_key s key) key = None"
      by (simp add: secrets_delete_key)
    ultimately have "\<forall>r \<in> set (get_results key (delete_key s key) evs). r = (None, ReasonNotFound)"
      by (intro absent_results)
    then have "replicate (length (get_results key (delete_key s key) evs)) (None, ReasonNotFound)
        = get_results key (delete_key s key) evs"
      by (intro replicate_length_same) simp
    with ev True g show ?thesis by simp
  next
    case False
    with undisturbed_keeps [OF Cons.prems(1) u] ev
    have keep: "secrets (step s ev) key = Some sec" by simp
    have same: "get_results key s (ev # evs) = get_results key (step s ev) evs"
      using False ev by (cases o1) auto
    from Cons.IH [OF keep Cons.prems(2) l] same show ?thesis by simp
  qed
qed

lemma length_get_results:
  "length (get_results key s evs) = length (filter (\<lambda>ev. snd ev = OpGet key) evs)"
proof (induction evs arbitrary: s)
  case Nil
  then show ?case by simp
next
  case (Cons ev evs)
  obtain now o1 where ev: "ev = (now, o1)" by (cases ev)
  show ?case using Cons.IH ev by (cases o1) auto
qed

text \<open>
  C2, as stated, fails in four ways. On an entry with one view and two concurrent
  callers of \<open>GetWithReason\<close>: when a \<open>Delete\<close> of the id runs concurrently and gets the
  lock first, none receives the blob; when the entry has expired, none receives the blob
  and one receives \<open>ReasonExpired\<close>; when the stored blob is nil, none receives a blob;
  and when a \<open>Put\<close> of the id runs between them, both receive a blob.
\<close>

theorem exactly_once_counterexample:
  "secrets (store1 1 60) ''k1''
     = Some \<lparr>Blob = blob1, ViewsRemaining = 1, Expiry = 60, MaxViews = 1\<rparr>
   \<and> callers2 = [(0, OpDelete ''k1''), (1, OpGet ''k1''), (2, OpGet ''k1'')]
   \<and> get_results ''k1'' (store1 1 60) callers2
       = [(None, ReasonNotFound), (None, ReasonNotFound)]
   \<and> length (filter received (get_results ''k1'' (store1 1 60) callers2)) = 0
   \<and> callers3 = [(61, OpGet ''k1''), (62, OpGet ''k1'')]
   \<and> get_results ''k1'' (store1 1 60) callers3
       = [(None, ReasonExpired), (None, ReasonNotFound)]
   \<and> length (filter received (get_results ''k1'' (store1 1 60) callers3)) = 0
   \<and> callers4 = [(0, OpGet ''k1''), (1, OpGet ''k1'')]
   \<and> get_results ''k1'' (Put NewStore ''k1'' None 1 60) callers4
       = [(None, ReasonNotFound), (None, ReasonNotFound)]
   \<and> length (filter received (get_results ''k1'' (Put NewStore ''k1'' None 1 60) callers4)) = 0
   \<and> callers5 = [(0, OpGet ''k1''), (1, OpPut ''k1'' (Some [0x62]) 1 60), (2, OpGet ''k1'')]
   \<and> get_results ''k1'' (store1 1 60) callers5
       = [(blob1, ReasonNotFound), (Some [0x62], ReasonNotFound)]
   \<and> length (filter received (get_results ''k1'' (store1 1 60) callers5)) = 2"
proof -
  have 2: "get_results ''k1'' (store1 1 60) callers2
      = [(None, ReasonNotFound), (None, ReasonNotFound)]"
    by (simp add: callers2_def store1_secrets Delete_def delete_key_def GetWithReason_def)
  have 3: "get_results ''k1'' (store1 1 60) callers3
      = [(None, ReasonExpired), (None, ReasonNotFound)]"
    by (simp add: callers3_def store1_secrets delete_key_def GetWithReason_def After_def)
  have 4: "get_results ''k1'' (Put NewStore ''k1'' None 1 60) callers4
      = [(None, ReasonNotFound), (None, ReasonNotFound)]"
    by (simp add: callers4_def Put_def NewStore_def delete_key_def GetWithReason_def After_def)
  have 5: "get_results ''k1'' (store1 1 60) callers5
      = [(blob1, ReasonNotFound), (Some [0x62], ReasonNotFound)]"
    by (simp add: callers5_def store1_secrets Put_def delete_key_def GetWithReason_def After_def)
  have b: "blob1 \<noteq> None"
    by (simp add: blob1_def)
  show ?thesis
    unfolding 2 3 4 5 using b
    by (simp add: received_def store1_secrets callers2_def callers3_def callers4_def
        callers5_def)
qed

text \<open>
  C2, amended. Take an entry with one view left and any concurrent execution.
  \<^item> If no \<open>Put\<close> of the id runs concurrently, at most one caller of \<open>GetWithReason\<close>
    receives a blob: no two callers are both served from the last view.
  \<^item> If moreover no \<open>Delete\<close> of the id runs concurrently, the entry has not expired
    when the calls and the sweeps run, and there are \<open>N \<ge> 1\<close> calls of \<open>GetWithReason\<close>
    on the id, then the first caller to get the lock is returned the stored blob and the
    other \<open>N - 1\<close> receive \<open>(nil, ReasonNotFound)\<close>: exactly one caller receives a blob
    when the stored blob is not nil, and none when it is nil.
\<close>

theorem exactly_once:
  assumes "secrets s key = Some sec" and "ViewsRemaining sec = 1"
  shows "(list_all (no_put key) evs
          \<longrightarrow> length (filter received (get_results key s evs)) \<le> 1)
    \<and> (list_all (undisturbed key (Expiry sec)) evs
         \<and> filter (\<lambda>ev. snd ev = OpGet key) evs \<noteq> []
        \<longrightarrow> get_results key s evs =
              (Blob sec, ReasonNotFound)
              # replicate (length (filter (\<lambda>ev. snd ev = OpGet key) evs) - 1)
                  (None, ReasonNotFound)
            \<and> length (filter received (get_results key s evs))
                = (if Blob sec = None then 0 else 1))"
proof -
  have 1: "length (filter received (get_results key s evs)) \<le> 1"
    if "list_all (no_put key) evs"
    using assms(1) _ that by (rule at_most_one_received) (simp add: assms(2))
  have 2: "get_results key s evs =
        (Blob sec, ReasonNotFound)
        # replicate (length (filter (\<lambda>ev. snd ev = OpGet key) evs) - 1) (None, ReasonNotFound)
      \<and> length (filter received (get_results key s evs)) = (if Blob sec = None then 0 else 1)"
    if u: "list_all (undisturbed key (Expiry sec)) evs"
      and n: "filter (\<lambda>ev. snd ev = OpGet key) evs \<noteq> []"
  proof -
    have ne: "get_results key s evs \<noteq> []"
      using n length_get_results [of key s evs] by auto
    with first_caller_receives [OF assms u]
    have r: "get_results key s evs =
        (Blob sec, ReasonNotFound)
        # replicate (length (get_results key s evs) - 1) (None, ReasonNotFound)"
      by simp
    have "length (filter received
        ((Blob sec, ReasonNotFound)
         # replicate (length (get_results key s evs) - 1) (None, ReasonNotFound)))
        = (if Blob sec = None then 0 else 1)"
      by (simp add: received_def)
    with r have "length (filter received (get_results key s evs))
        = (if Blob sec = None then 0 else 1)"
      by (simp only:)
    with r show ?thesis
      by (simp add: length_get_results)
  qed
  from 1 2 show ?thesis by blast
qed

theorem exactly_once_witness:
  "secrets (store1 1 60) ''k1''
     = Some \<lparr>Blob = blob1, ViewsRemaining = 1, Expiry = 60, MaxViews = 1\<rparr>
   \<and> list_all (undisturbed ''k1'' 60) callers1
   \<and> get_results ''k1'' (store1 1 60) callers1
       = [(blob1, ReasonNotFound), (None, ReasonNotFound), (None, ReasonNotFound)]
   \<and> length (filter received (get_results ''k1'' (store1 1 60) callers1)) = 1"
proof -
  let ?sec = "\<lparr>Blob = blob1, ViewsRemaining = 1, Expiry = 60, MaxViews = 1\<rparr>"
  have a: "secrets (store1 1 60) ''k1'' = Some ?sec"
    by (simp add: store1_secrets)
  have b: "ViewsRemaining ?sec = 1"
    by simp
  have u: "list_all (undisturbed ''k1'' (Expiry ?sec)) callers1"
    by (simp add: callers1_def)
  have n: "Blob ?sec \<noteq> None \<and> filter (\<lambda>ev. snd ev = OpGet ''k1'') callers1 \<noteq> []"
    by (simp add: blob1_def callers1_def)
  then have nb: "(if Blob ?sec = None then 0 else 1) = (1::nat)"
    by simp
  from exactly_once [OF a b, of callers1] u n
  have r: "get_results ''k1'' (store1 1 60) callers1 =
      (Blob ?sec, ReasonNotFound)
      # replicate (length (filter (\<lambda>ev. snd ev = OpGet ''k1'') callers1) - 1)
          (None, ReasonNotFound)"
    and c0: "length (filter received (get_results ''k1'' (store1 1 60) callers1))
      = (if Blob ?sec = None then 0 else 1)"
    by blast+
  from c0 nb have c: "length (filter received (get_results ''k1'' (store1 1 60) callers1)) = 1"
    by (simp only:)
  have "(Blob ?sec, ReasonNotFound)
      # replicate (length (filter (\<lambda>ev. snd ev = OpGet ''k1'') callers1) - 1)
          (None, ReasonNotFound)
      = [(blob1, ReasonNotFound), (None, ReasonNotFound), (None, ReasonNotFound)]"
    by (simp add: callers1_def numeral_2_eq_2)
  with r have "get_results ''k1'' (store1 1 60) callers1
      = [(blob1, ReasonNotFound), (None, ReasonNotFound), (None, ReasonNotFound)]"
    by (simp only:)
  moreover have "list_all (undisturbed ''k1'' 60) callers1"
    by (simp add: callers1_def)
  ultimately show ?thesis
    using a c by blast
qed

end
